theory Spec2Isabelle
  imports Main
begin

section \<open>JavaScript values\<close>

text \<open>
  Documents are schema-less JavaScript values. Reference values (dates, arrays, objects,
  functions, symbols) carry the address of the object, because \<^verbatim>\<open>===\<close> compares
  them by identity. A plain object is the list of its own enumerable properties in
  insertion order; reading an absent property yields \<^verbatim>\<open>undefined\<close>.

  Scope of the model: numbers are the integers and \<^verbatim>\<open>NaN\<close>; a \<^verbatim>\<open>Date\<close> holds a
  valid time value (milliseconds since the epoch); arrays have no holes; property names
  do not collide with the names inherited from \<^verbatim>\<open>Object.prototype\<close>; \<open>JOther\<close> stands
  for every object that is neither plain, an array nor a date.
\<close>

datatype jsval =
    JUndefined
  | JNull
  | JBool bool
  | JNum int
  | JNaN
  | JStr string
  | JDate nat int
  | JArr nat "jsval list"
  | JObj nat "(string \<times> jsval) list"
  | JFunc nat
  | JSymbol nat
  | JOther nat

type_synonym jsrecord = "(string \<times> jsval) list"

record FieldChange =
  field :: string
  oldValue :: jsval
  newValue :: jsval
  path :: string

text \<open>\<^verbatim>\<open>Object.keys(obj)\<close> and \<^verbatim>\<open>obj[key]\<close>.\<close>

definition object_keys :: "jsrecord \<Rightarrow> string list" where
  "object_keys obj = map fst obj"

definition js_get :: "jsrecord \<Rightarrow> string \<Rightarrow> jsval" where
  "js_get obj key = (case map_of obj key of None \<Rightarrow> JUndefined | Some v \<Rightarrow> v)"

text \<open>
  \<^verbatim>\<open>val1 === val2\<close>: primitives by value (\<^verbatim>\<open>NaN\<close> equals nothing), objects by
  identity.
\<close>

definition strict_eq :: "jsval \<Rightarrow> jsval \<Rightarrow> bool" where
  "strict_eq val1 val2 =
     (case val1 of
        JUndefined \<Rightarrow> (case val2 of JUndefined \<Rightarrow> True | _ \<Rightarrow> False)
      | JNull \<Rightarrow> (case val2 of JNull \<Rightarrow> True | _ \<Rightarrow> False)
      | JBool a \<Rightarrow> (case val2 of JBool b \<Rightarrow> a = b | _ \<Rightarrow> False)
      | JNum a \<Rightarrow> (case val2 of JNum b \<Rightarrow> a = b | _ \<Rightarrow> False)
      | JNaN \<Rightarrow> False
      | JStr a \<Rightarrow> (case val2 of JStr b \<Rightarrow> a = b | _ \<Rightarrow> False)
      | JDate r _ \<Rightarrow> (case val2 of JDate r' _ \<Rightarrow> r = r' | _ \<Rightarrow> False)
      | JArr r _ \<Rightarrow> (case val2 of JArr r' _ \<Rightarrow> r = r' | _ \<Rightarrow> False)
      | JObj r _ \<Rightarrow> (case val2 of JObj r' _ \<Rightarrow> r = r' | _ \<Rightarrow> False)
      | JFunc r \<Rightarrow> (case val2 of JFunc r' \<Rightarrow> r = r' | _ \<Rightarrow> False)
      | JSymbol r \<Rightarrow> (case val2 of JSymbol r' \<Rightarrow> r = r' | _ \<Rightarrow> False)
      | JOther r \<Rightarrow> (case val2 of JOther r' \<Rightarrow> r = r' | _ \<Rightarrow> False))"

text \<open>\<^verbatim>\<open>val == null\<close>.\<close>

definition nullish :: "jsval \<Rightarrow> bool" where
  "nullish v = (case v of JUndefined \<Rightarrow> True | JNull \<Rightarrow> True | _ \<Rightarrow> False)"

text \<open>
  \<^verbatim>\<open>val !== null && typeof val === 'object' && val.constructor === Object\<close>,
  \<^verbatim>\<open>Array.isArray(val)\<close>, \<^verbatim>\<open>val instanceof Date\<close>, and what is read from a value once
  its kind is known.
\<close>

definition isPlainObject :: "jsval \<Rightarrow> bool" where
  "isPlainObject v = (case v of JObj _ _ \<Rightarrow> True | _ \<Rightarrow> False)"

definition isArray :: "jsval \<Rightarrow> bool" where
  "isArray v = (case v of JArr _ _ \<Rightarrow> True | _ \<Rightarrow> False)"

definition isDate :: "jsval \<Rightarrow> bool" where
  "isDate v = (case v of JDate _ _ \<Rightarrow> True | _ \<Rightarrow> False)"

definition fields_of :: "jsval \<Rightarrow> jsrecord" where
  "fields_of v = (case v of JObj _ obj \<Rightarrow> obj | _ \<Rightarrow> [])"

definition items_of :: "jsval \<Rightarrow> jsval list" where
  "items_of v = (case v of JArr _ xs \<Rightarrow> xs | _ \<Rightarrow> [])"

definition getTime :: "jsval \<Rightarrow> int" where
  "getTime v = (case v of JDate _ t \<Rightarrow> t | _ \<Rightarrow> 0)"

section \<open>The diff engine\<close>

text \<open>Sizes of the parts of a value, for the termination proofs below.\<close>

lemma size_map_of: "map_of obj key = Some v \<Longrightarrow> size v < size (JObj r obj)"
  by (induction obj) (auto split: if_splits)

lemma size_js_get: "key \<in> set (object_keys obj) \<Longrightarrow> size (js_get obj key) < size (JObj r obj)"
proof -
  assume "key \<in> set (object_keys obj)"
  then have "map_of obj key \<noteq> None"
    by (simp add: object_keys_def map_of_eq_None_iff)
  then obtain v where "map_of obj key = Some v"
    by blast
  then show ?thesis
    using size_map_of [of obj key v r] by (simp add: js_get_def)
qed

lemma js_get_defined: "js_get obj key \<noteq> JUndefined \<Longrightarrow> key \<in> set (object_keys obj)"
  by (cases "map_of obj key") (auto simp: js_get_def object_keys_def dest: map_of_SomeD intro: rev_image_eqI)

lemma size_item: "x \<in> set xs \<Longrightarrow> size x < size (JArr r xs)"
  by (induction xs) auto

text \<open>
  \<^verbatim>\<open>deepEqual(val1, val2)\<close>. \<^verbatim>\<open>val1.every((item, index) => deepEqual(item, val2[index]))\<close>
  runs on arrays of one length, so it walks the two arrays in step.
\<close>

function deepEqual :: "jsval \<Rightarrow> jsval \<Rightarrow> bool" where
  "deepEqual val1 val2 =
     (if strict_eq val1 val2 then True
      else if nullish val1 \<or> nullish val2 then False
      else if isDate val1 \<and> isDate val2 then getTime val1 = getTime val2
      else if isArray val1 \<and> isArray val2 then
        (if length (items_of val1) \<noteq> length (items_of val2) then False
         else list_all (\<lambda>(item, other). deepEqual item other) (zip (items_of val1) (items_of val2)))
      else if isPlainObject val1 \<and> isPlainObject val2 then
        (if length (object_keys (fields_of val1)) \<noteq> length (object_keys (fields_of val2)) then False
         else list_all (\<lambda>key. deepEqual (js_get (fields_of val1) key) (js_get (fields_of val2) key))
                (object_keys (fields_of val1)))
      else False)"
  by pat_completeness auto
termination
proof (relation "measure (\<lambda>(val1, val2). size val1)", goal_cases)
  case 1
  then show ?case by simp
next
  case (2 val1 val2 x xa y)
  then show ?case
    by (cases val1) (auto simp: isArray_def items_of_def dest!: set_zip_leftD size_item)
next
  case (3 val1 val2 key)
  then show ?case
    by (cases val1) (auto simp: isPlainObject_def fields_of_def dest: size_js_get)
qed

declare deepEqual.simps [simp del]

text \<open>
  Decimal digits of a number in a template string, and \<^verbatim>\<open>Date.prototype.toISOString\<close>
  (proleptic Gregorian calendar in UTC; years outside 0..9999 are written with a sign and
  six digits).
\<close>

definition digit :: "nat \<Rightarrow> char" where
  "digit n = ''0123456789'' ! n"

fun show_nat :: "nat \<Rightarrow> string" where
  "show_nat n = (if n < 10 then [digit n] else show_nat (n div 10) @ [digit (n mod 10)])"

declare show_nat.simps [simp del]

definition pad :: "nat \<Rightarrow> nat \<Rightarrow> string" where
  "pad width n = replicate (width - length (show_nat n)) (CHR ''0'') @ show_nat n"

definition civil_from_days :: "int \<Rightarrow> int \<times> int \<times> int" where
  "civil_from_days z0 =
     (let z = z0 + 719468;
          era = z div 146097;
          doe = z mod 146097;
          yoe = (doe - doe div 1460 + doe div 36524 - doe div 146096) div 365;
          doy = doe - (365 * yoe + yoe div 4 - yoe div 100);
          mp = (5 * doy + 2) div 153;
          d = doy - (153 * mp + 2) div 5 + 1;
          m = (if mp < 10 then mp + 3 else mp - 9);
          y = yoe + era * 400 + (if m \<le> 2 then 1 else 0)
      in (y, m, d))"

definition toISOString :: "int \<Rightarrow> string" where
  "toISOString t =
     (let (y, m, d) = civil_from_days (t div 86400000);
          ms = t mod 86400000;
          year = (if 0 \<le> y \<and> y \<le> 9999 then pad 4 (nat y)
                  else (if y < 0 then ''-'' else ''+'') @ pad 6 (nat \<bar>y\<bar>))
      in year @ ''-'' @ pad 2 (nat m) @ ''-'' @ pad 2 (nat d) @ ''T''
         @ pad 2 (nat (ms div 3600000)) @ '':'' @ pad 2 (nat (ms div 60000 mod 60)) @ '':''
         @ pad 2 (nat (ms div 1000 mod 60)) @ ''.'' @ pad 3 (nat (ms mod 1000)) @ ''Z'')"

text \<open>\<^verbatim>\<open>serializeValue(value)\<close>.\<close>

definition serializeValue :: "jsval \<Rightarrow> jsval" where
  "serializeValue v =
     (case v of
        JUndefined \<Rightarrow> JNull
      | JDate _ t \<Rightarrow> JStr (toISOString t)
      | JFunc _ \<Rightarrow> JStr ''[Function]''
      | JSymbol _ \<Rightarrow> JStr ''[Symbol]''
      | JObj _ obj \<Rightarrow>
          (if length (object_keys obj) > 50
           then JStr (''[Object with '' @ show_nat (length (object_keys obj)) @ '' keys]'') else v)
      | JArr _ xs \<Rightarrow>
          (if length xs > 100 then JStr (''[Array with '' @ show_nat (length xs) @ '' items]'') else v)
      | _ \<Rightarrow> v)"

text \<open>
  The fields the diff always skips (\<^verbatim>\<open>key === 'updatedAt' || key === 'createdAt' || key === 'id'\<close>),
  and the two ways a path grows: \<^verbatim>\<open>parentPath ? `${parentPath}.${key}` : key\<close> and
  \<^verbatim>\<open>`${path}[${i}]`\<close>.
\<close>

definition reserved :: "string \<Rightarrow> bool" where
  "reserved key \<longleftrightarrow> key = ''updatedAt'' \<or> key = ''createdAt'' \<or> key = ''id''"

definition child_path :: "string \<Rightarrow> string \<Rightarrow> string" where
  "child_path parentPath key = (if parentPath \<noteq> [] then parentPath @ ''.'' @ key else key)"

definition index_path :: "string \<Rightarrow> nat \<Rightarrow> string" where
  "index_path p i = p @ ''['' @ show_nat i @ '']''"

text \<open>
  \<^verbatim>\<open>new Set([...Object.keys(oldDoc), ...Object.keys(newDoc)])\<close>: each key once, in the order
  of its first occurrence.
\<close>

definition allKeys :: "jsrecord \<Rightarrow> jsrecord \<Rightarrow> string list" where
  "allKeys oldDoc newDoc = rev (remdups (rev (object_keys oldDoc @ object_keys newDoc)))"

text \<open>
  \<^verbatim>\<open>flattenObject(obj, parentPath, excludeFields)\<close>; an item of the result is
  (field, value, path).
\<close>

function flattenObject :: "jsrecord option \<Rightarrow> string \<Rightarrow> string list \<Rightarrow> (string \<times> jsval \<times> string) list" where
  "flattenObject None parentPath excl = []"
| "flattenObject (Some obj) parentPath excl =
     concat (map (\<lambda>key.
       if key \<in> set excl then []
       else if reserved key then []
       else
         let v = js_get obj key;
             currentPath = child_path parentPath key
         in if isPlainObject v then flattenObject (Some (fields_of v)) currentPath excl
            else if isArray v then
              concat (map (\<lambda>(index, item).
                let itemPath = index_path currentPath index
                in if isPlainObject item then flattenObject (Some (fields_of item)) itemPath excl
                   else [(index_path key index, serializeValue item, itemPath)])
                (zip [0 ..< length (items_of v)] (items_of v)))
            else [(key, serializeValue v, currentPath)])
       (object_keys obj))"
  by pat_completeness auto
termination
proof (relation "measure (\<lambda>(doc, parentPath, excl). case doc of None \<Rightarrow> 0 | Some obj \<Rightarrow> size (JObj 0 obj))",
    goal_cases)
  case 1
  then show ?case by simp
next
  case (2 obj parentPath excl key v currentPath)
  then show ?case
    using size_js_get [of key obj 0]
    by (cases "js_get obj key") (simp_all add: isPlainObject_def fields_of_def)
next
  case (3 obj parentPath excl key v currentPath x index item itemPath)
  then have "item \<in> set (items_of (js_get obj key))"
    by (auto dest: set_zip_rightD)
  then have "size item < size (js_get obj key)"
    using 3 by (cases "js_get obj key") (auto simp: isArray_def items_of_def dest: size_item)
  then show ?case
    using size_js_get [of key obj 0] 3
    by (cases item) (simp_all add: isPlainObject_def fields_of_def)
qed

declare flattenObject.simps [simp del]

text \<open>
  \<^verbatim>\<open>calculateDiff(oldDoc, newDoc, excludeFields, parentPath)\<close> and
  \<^verbatim>\<open>compareArrays(oldArray, newArray, path, excludeFields)\<close>. A document is a plain object,
  \<open>None\<close> is \<^verbatim>\<open>null\<close> or \<^verbatim>\<open>undefined\<close>.
\<close>

function calculateDiff :: "jsrecord option \<Rightarrow> jsrecord option \<Rightarrow> string list \<Rightarrow> string \<Rightarrow> FieldChange list"
  and compareArrays :: "jsval list \<Rightarrow> jsval list \<Rightarrow> string \<Rightarrow> string list \<Rightarrow> FieldChange list" where
  "calculateDiff oldDoc newDoc excl parentPath =
     (case oldDoc of
        None \<Rightarrow>
          (case newDoc of
             None \<Rightarrow> []
           | Some _ \<Rightarrow>
               map (\<lambda>(f, v, p). \<lparr>field = f, oldValue = JNull, newValue = v, path = p\<rparr>)
                 (flattenObject newDoc parentPath excl))
      | Some old \<Rightarrow>
          (case newDoc of
             None \<Rightarrow>
               map (\<lambda>(f, v, p). \<lparr>field = f, oldValue = v, newValue = JNull, path = p\<rparr>)
                 (flattenObject oldDoc parentPath excl)
           | Some new \<Rightarrow>
               concat (map (\<lambda>key.
                 if key \<in> set excl then []
                 else if reserved key then []
                 else
                   let oldVal = js_get old key;
                       newVal = js_get new key;
                       currentPath = child_path parentPath key
                   in if \<not> deepEqual oldVal newVal then
                        (if isPlainObject oldVal \<and> isPlainObject newVal then
                           calculateDiff (Some (fields_of oldVal)) (Some (fields_of newVal)) excl currentPath
                         else if isArray oldVal \<and> isArray newVal then
                           compareArrays (items_of oldVal) (items_of newVal) currentPath excl
                         else [\<lparr>field = key, oldValue = serializeValue oldVal,
                                 newValue = serializeValue newVal, path = currentPath\<rparr>])
                      else [])
                 (allKeys old new))))"
| "compareArrays oldArray newArray p excl =
     (if length oldArray \<noteq> length newArray then
        [\<lparr>field = p @ ''.length'', oldValue = JNum (int (length oldArray)),
          newValue = JNum (int (length newArray)), path = p @ ''.length''\<rparr>]
      else [])
     @ concat (map (\<lambda>i.
         let oldItem = (if i < length oldArray then oldArray ! i else JUndefined);
             newItem = (if i < length newArray then newArray ! i else JUndefined);
             itemPath = index_path p i
         in if \<not> deepEqual oldItem newItem then
              (if isPlainObject oldItem \<and> isPlainObject newItem then
                 calculateDiff (Some (fields_of oldItem)) (Some (fields_of newItem)) excl itemPath
               else [\<lparr>field = index_path p i, oldValue = serializeValue oldItem,
                       newValue = serializeValue newItem, path = itemPath\<rparr>])
            else [])
         [0 ..< max (length oldArray) (length newArray)])"
  by pat_completeness auto
termination
proof (relation "measure (\<lambda>x. case x of
      Inl (oldDoc, newDoc, excl, parentPath) \<Rightarrow> (case oldDoc of None \<Rightarrow> 0 | Some obj \<Rightarrow> size (JObj 0 obj))
    | Inr (oldArray, newArray, p, excl) \<Rightarrow> size (JArr 0 oldArray))", goal_cases)
  case 1
  then show ?case by simp
next
  case (2 oldDoc newDoc excl parentPath old new key oldVal newVal currentPath)
  then have "key \<in> set (object_keys old)"
    by (intro js_get_defined) (auto simp: isPlainObject_def)
  then show ?case
    using size_js_get [of key old 0] 2
    by (cases "js_get old key") (simp_all add: isPlainObject_def fields_of_def)
next
  case (3 oldDoc newDoc excl parentPath old new key oldVal newVal currentPath)
  then have "key \<in> set (object_keys old)"
    by (intro js_get_defined) (auto simp: isArray_def)
  then show ?case
    using size_js_get [of key old 0] 3
    by (cases "js_get old key") (simp_all add: isArray_def items_of_def)
next
  case (4 oldArray newArray p excl i oldItem newItem itemPath)
  then have "i < length oldArray"
    by (auto simp: isPlainObject_def split: if_splits)
  then have "size (oldArray ! i) < size (JArr 0 oldArray)"
    by (intro size_item) simp
  then show ?case
    using 4 by (cases "oldArray ! i") (simp_all add: isPlainObject_def fields_of_def split: if_splits)
qed

declare calculateDiff.simps [simp del] compareArrays.simps [simp del]


section \<open>The audit store and the retention policy\<close>

datatype action = Create | Update | Delete

text \<open>
  The data of an audit entry as the hooks pass it to \<^verbatim>\<open>payload.create\<close>, and the stored
  entry with the primary key the store assigns. \<open>timestamp\<close> is the instant in
  milliseconds (it is stored as ISO-8601 text and parsed back by \<^verbatim>\<open>new Date\<close>).
\<close>

record audit_data =
  collection :: string
  documentId :: string
  action :: action
  userId :: "int option"
  userName :: string
  timestamp :: int
  changes :: "FieldChange list"
  ip :: string
  userAgent :: string
  version :: int
  isSnapshot :: bool

record audit_entry = audit_data +
  entry_id :: nat

record AuditConfig =
  excludeFields :: "string list"
  excludeCollections :: "string list"
  trackActions :: "action list"
  windowDays :: "int option"
  minVersions :: "int option"
  maxDays :: "int option"

record CleanupResult =
  deletedCount :: nat
  keptCount :: nat
  skippedSnapshots :: nat
  documentsProcessed :: nat

datatype error = Error string

datatype level = Warn | Err

text \<open>
  The host's storage interface. \<open>audit_logs\<close> is the content of the audit collection in
  insertion order, \<open>next_id\<close> the next primary key. Every call of the interface may
  throw: \<open>find_fails\<close>, \<open>create_fails\<close> and \<open>delete_fails\<close> say when, \<open>findByID\<close> is
  the lookup of a document of another collection. \<open>logged\<close> collects the logger's lines.
\<close>

record payload =
  audit_logs :: "audit_entry list"
  next_id :: nat
  find_fails :: "string \<Rightarrow> string \<Rightarrow> bool"
  create_fails :: "audit_data \<Rightarrow> bool"
  delete_fails :: "audit_entry list \<Rightarrow> nat \<Rightarrow> bool"
  findByID :: "string \<Rightarrow> jsval \<Rightarrow> error + jsrecord"
  logged :: "(level \<times> string) list"

definition logger :: "level \<Rightarrow> string \<Rightarrow> error \<Rightarrow> payload \<Rightarrow> payload" where
  "logger l prefix e p = (case e of Error msg \<Rightarrow> p\<lparr>logged := logged p @ [(l, prefix @ msg)]\<rparr>)"

text \<open>
  \<^verbatim>\<open>payload.find({collection: 'audit-logs', where: {and: [collection = c, documentId = d]},
  sort: '-version', limit})\<close>: the entries of one document, highest version first.
\<close>

definition payload_find :: "payload \<Rightarrow> string \<Rightarrow> string \<Rightarrow> nat \<Rightarrow> error + audit_entry list" where
  "payload_find p c d limit =
     (if find_fails p c d then Inl (Error ''find failed'')
      else Inr (take limit (sort_key (\<lambda>e. - version e)
                 (filter (\<lambda>e. collection e = c \<and> documentId e = d) (audit_logs p)))))"

text \<open>\<^verbatim>\<open>payload.delete({collection: 'audit-logs', id})\<close> and
  \<^verbatim>\<open>payload.create({collection: 'audit-logs', data})\<close>.\<close>

definition payload_delete :: "payload \<Rightarrow> nat \<Rightarrow> error + payload" where
  "payload_delete p i =
     (if delete_fails p (audit_logs p) i then Inl (Error ''delete failed'')
      else Inr (p\<lparr>audit_logs := filter (\<lambda>e. entry_id e \<noteq> i) (audit_logs p)\<rparr>))"

definition payload_create :: "payload \<Rightarrow> audit_data \<Rightarrow> error + payload" where
  "payload_create p data =
     (if create_fails p data then Inl (Error ''create failed'')
      else Inr (p\<lparr>audit_logs := audit_logs p @ [audit_data.extend data \<lparr>entry_id = next_id p\<rparr>],
                 next_id := Suc (next_id p)\<rparr>))"

text \<open>\<^verbatim>\<open>x || d\<close> on an optional number: absent and \<open>0\<close> are falsy.\<close>

definition or_default :: "int option \<Rightarrow> int \<Rightarrow> int" where
  "or_default v d = (case v of None \<Rightarrow> d | Some n \<Rightarrow> if n = 0 then d else n)"

text \<open>
  \<^verbatim>\<open>c = new Date(t); c.setDate(c.getDate() - days)\<close>, on instants in milliseconds: whole
  days of 24 hours (the host's time zone has no clock change in between).
\<close>

definition minus_days :: "int \<Rightarrow> int \<Rightarrow> int" where
  "minus_days t days = t - days * 86400000"

section \<open>Retention: cleanupDocumentAuditLogs and getCleanupPreview\<close>

text \<open>
  The classification loop of \<^verbatim>\<open>cleanupDocumentAuditLogs\<close>, from index \<open>i\<close> on: the
  counters and the list \<^verbatim>\<open>toDelete\<close> are threaded through.
\<close>

fun cleanup_loop ::
  "AuditConfig \<Rightarrow> int \<Rightarrow> int \<Rightarrow> nat \<Rightarrow> audit_entry list \<Rightarrow> CleanupResult \<times> nat list
    \<Rightarrow> CleanupResult \<times> nat list" where
  "cleanup_loop config maxAgeCutoff windowCutoff i [] (result, toDelete) = (result, toDelete)"
| "cleanup_loop config maxAgeCutoff windowCutoff i (entry # rest) (result, toDelete) =
     (if isSnapshot entry then
        cleanup_loop config maxAgeCutoff windowCutoff (Suc i) rest
          (result\<lparr>skippedSnapshots := Suc (skippedSnapshots result),
                  keptCount := Suc (keptCount result)\<rparr>, toDelete)
      else if int i < or_default (minVersions config) 10 then
        cleanup_loop config maxAgeCutoff windowCutoff (Suc i) rest
          (result\<lparr>keptCount := Suc (keptCount result)\<rparr>, toDelete)
      else if timestamp entry < maxAgeCutoff then
        cleanup_loop config maxAgeCutoff windowCutoff (Suc i) rest
          (result, toDelete @ [entry_id entry])
      else if timestamp entry < windowCutoff then
        cleanup_loop config maxAgeCutoff windowCutoff (Suc i) rest
          (result, toDelete @ [entry_id entry])
      else
        cleanup_loop config maxAgeCutoff windowCutoff (Suc i) rest
          (result\<lparr>keptCount := Suc (keptCount result)\<rparr>, toDelete))"

text \<open>
  The deletion loop. The result object lives outside the \<^verbatim>\<open>try\<close> block, so a
  deletion that throws leaves the deletions done so far in the store and in the count.
\<close>

fun delete_loop :: "payload \<Rightarrow> nat list \<Rightarrow> CleanupResult \<Rightarrow> payload \<times> CleanupResult \<times> error option" where
  "delete_loop p [] result = (p, result, None)"
| "delete_loop p (i # ids) result =
     (case payload_delete p i of
        Inl e \<Rightarrow> (p, result, Some e)
      | Inr p' \<Rightarrow> delete_loop p' ids (result\<lparr>deletedCount := Suc (deletedCount result)\<rparr>))"

definition result0 :: CleanupResult where
  "result0 = \<lparr>deletedCount = 0, keptCount = 0, skippedSnapshots = 0, documentsProcessed = 1\<rparr>"

definition cleanupDocumentAuditLogs ::
  "payload \<Rightarrow> int \<Rightarrow> string \<Rightarrow> string \<Rightarrow> AuditConfig \<Rightarrow> payload \<times> CleanupResult" where
  "cleanupDocumentAuditLogs p now c d config =
     (case payload_find p c d 1000 of
        Inl e \<Rightarrow> (logger Err (''Failed to cleanup audit logs for '' @ c @ ''/'' @ d @ '': '') e p, result0)
      | Inr docs \<Rightarrow>
          (case docs of
             [] \<Rightarrow> (p, result0)
           | latestEntry # _ \<Rightarrow>
               let windowCutoff = minus_days (timestamp latestEntry) (or_default (windowDays config) 90);
                   maxAgeCutoff = minus_days now (or_default (maxDays config) 365);
                   (result, toDelete) = cleanup_loop config maxAgeCutoff windowCutoff 0 docs (result0, [])
               in (case delete_loop p toDelete result of
                     (p', result', None) \<Rightarrow> (p', result')
                   | (p', result', Some e) \<Rightarrow>
                       (logger Err (''Failed to cleanup audit logs for '' @ c @ ''/'' @ d @ '': '') e p',
                        result'))))"

text \<open>The loop of \<^verbatim>\<open>getCleanupPreview\<close>: it counts and calls nothing.\<close>

fun preview_loop ::
  "AuditConfig \<Rightarrow> int \<Rightarrow> int \<Rightarrow> nat \<Rightarrow> audit_entry list \<Rightarrow> CleanupResult \<Rightarrow> CleanupResult" where
  "preview_loop config maxAgeCutoff windowCutoff i [] result = result"
| "preview_loop config maxAgeCutoff windowCutoff i (entry # rest) result =
     (if isSnapshot entry then
        preview_loop config maxAgeCutoff windowCutoff (Suc i) rest
          (result\<lparr>skippedSnapshots := Suc (skippedSnapshots result),
                  keptCount := Suc (keptCount result)\<rparr>)
      else if int i < or_default (minVersions config) 10 then
        preview_loop config maxAgeCutoff windowCutoff (Suc i) rest
          (result\<lparr>keptCount := Suc (keptCount result)\<rparr>)
      else if timestamp entry < maxAgeCutoff \<or> timestamp entry < windowCutoff then
        preview_loop config maxAgeCutoff windowCutoff (Suc i) rest
          (result\<lparr>deletedCount := Suc (deletedCount result)\<rparr>)
      else
        preview_loop config maxAgeCutoff windowCutoff (Suc i) rest
          (result\<lparr>keptCount := Suc (keptCount result)\<rparr>))"

definition getCleanupPreview ::
  "payload \<Rightarrow> int \<Rightarrow> string \<Rightarrow> string \<Rightarrow> AuditConfig \<Rightarrow> payload \<times> CleanupResult" where
  "getCleanupPreview p now c d config =
     (case payload_find p c d 1000 of
        Inl e \<Rightarrow> (logger Err (''Failed to preview cleanup for '' @ c @ ''/'' @ d @ '': '') e p, result0)
      | Inr docs \<Rightarrow>
          (case docs of
             [] \<Rightarrow> (p, result0)
           | latestEntry # _ \<Rightarrow>
               let windowCutoff = minus_days (timestamp latestEntry) (or_default (windowDays config) 90);
                   maxAgeCutoff = minus_days now (or_default (maxDays config) 365)
               in (p, preview_loop config maxAgeCutoff windowCutoff 0 docs result0)))"


section \<open>Capture: the post-mutation and pre-deletion hooks\<close>

text \<open>
  What the hooks read of the request: the user (\<^verbatim>\<open>req.user?.id\<close>, \<^verbatim>\<open>req.user?.email\<close>),
  the headers, the two remote addresses, and the snapshots that the pre-mutation hook
  left in \<^verbatim>\<open>req.context['__auditSnapshot__']\<close>, by collection.
\<close>

datatype operation = OpCreate | OpUpdate

record js_user =
  user_id :: "int option"
  email :: "string option"

record request =
  user :: "js_user option"
  headers :: "(string \<times> string) list option"
  connection_remoteAddress :: "string option"
  socket_remoteAddress :: "string option"
  auditContext :: "(string \<times> jsrecord) list option"

text \<open>\<^verbatim>\<open>x || d\<close> on an optional string: absent and the empty string are falsy.\<close>

definition str_or :: "string option \<Rightarrow> string \<Rightarrow> string" where
  "str_or x d = (case x of None \<Rightarrow> d | Some s \<Rightarrow> if s = [] then d else s)"

definition header :: "request \<Rightarrow> string \<Rightarrow> string option" where
  "header req name = (case headers req of None \<Rightarrow> None | Some hs \<Rightarrow> map_of hs name)"

text \<open>\<^verbatim>\<open>s.trim()\<close>, on the ASCII white space.\<close>

definition is_space :: "char \<Rightarrow> bool" where
  "is_space ch \<longleftrightarrow> ch \<in> set [CHR 0x20, CHR 0x09, CHR 0x0A, CHR 0x0B, CHR 0x0C, CHR 0x0D]"

definition trim :: "string \<Rightarrow> string" where
  "trim s = rev (dropWhile is_space (rev (dropWhile is_space s)))"

definition getClientIp :: "request \<Rightarrow> string" where
  "getClientIp req =
     (let forwarded = str_or (header req ''x-forwarded-for'') [] in
      if forwarded \<noteq> [] then trim (takeWhile (\<lambda>ch. ch \<noteq> CHR '','') forwarded)
      else
        let realIp = str_or (header req ''x-real-ip'') [] in
        if realIp \<noteq> [] then realIp
        else str_or (connection_remoteAddress req) (str_or (socket_remoteAddress req) ''Unknown''))"

text \<open>
  \<^verbatim>\<open>String(doc.id)\<close>. Identifiers are numbers or strings; the text of an array, a date,
  a function, a symbol or another object is not modelled and stands as a fixed tag.
\<close>

definition js_String :: "jsval \<Rightarrow> string" where
  "js_String v =
     (case v of
        JUndefined \<Rightarrow> ''undefined''
      | JNull \<Rightarrow> ''null''
      | JBool b \<Rightarrow> (if b then ''true'' else ''false'')
      | JNum n \<Rightarrow> (if n < 0 then ''-'' @ show_nat (nat (- n)) else show_nat (nat n))
      | JNaN \<Rightarrow> ''NaN''
      | JStr s \<Rightarrow> s
      | JObj _ _ \<Rightarrow> ''[object Object]''
      | _ \<Rightarrow> ''[object]'')"

text \<open>\<^verbatim>\<open>isCriticalSnapshot(newDoc, oldDoc, changes)\<close>.\<close>

definition isCriticalSnapshot :: "jsrecord \<Rightarrow> jsrecord option \<Rightarrow> FieldChange list \<Rightarrow> bool" where
  "isCriticalSnapshot newDoc oldDoc chs =
     (case find (\<lambda>ch. field ch = ''status'') chs of
        Some statusChange \<Rightarrow>
          if strict_eq (newValue statusChange) (JStr ''published'') then True
          else if oldDoc = None then True
          else False
      | None \<Rightarrow> if oldDoc = None then True else False)"

text \<open>
  \<^verbatim>\<open>latestAudit.docs.length > 0 ? latestAudit.docs[0].version + 1 : 1\<close>.
\<close>

definition next_version :: "audit_entry list \<Rightarrow> int" where
  "next_version docs = (case docs of [] \<Rightarrow> 1 | latest # _ \<Rightarrow> version latest + 1)"

text \<open>
  The "before" state of the post-mutation hook: \<^verbatim>\<open>previousDoc\<close>, or else the snapshot
  kept in the request context for the collection.
\<close>

definition originalDoc_of :: "request \<Rightarrow> string \<Rightarrow> jsrecord option \<Rightarrow> jsrecord option" where
  "originalDoc_of req collectionSlug previousDoc =
     (case previousDoc of
        Some d \<Rightarrow> Some d
      | None \<Rightarrow> (case auditContext req of None \<Rightarrow> None | Some ctx \<Rightarrow> map_of ctx collectionSlug))"

text \<open>
  The \<^verbatim>\<open>try\<close> block of the post-mutation hook: \<open>Inl\<close> is an exception thrown inside it,
  \<open>Inr\<close> the store afterwards and the clean-up the block handed to \<^verbatim>\<open>setImmediate\<close>
  (its collection and document), if any. \<open>now\<close> is the clock read by \<^verbatim>\<open>new Date()\<close>.
\<close>

definition afterChange_try ::
  "string \<Rightarrow> string list \<Rightarrow> payload \<Rightarrow> int \<Rightarrow> request \<Rightarrow> jsrecord \<Rightarrow> operation \<Rightarrow> jsrecord option
    \<Rightarrow> error + payload \<times> (string \<times> string) option" where
  "afterChange_try collectionSlug excl p now req doc operation previousDoc =
     (let originalDoc = originalDoc_of req collectionSlug previousDoc;
          chs = calculateDiff originalDoc (Some doc) excl []
      in if chs = [] \<and> operation = OpUpdate then Inr (p, None)
         else
           (case payload_find p collectionSlug (js_String (js_get doc ''id'')) 1 of
              Inl e \<Rightarrow> Inl e
            | Inr docs \<Rightarrow>
                (case payload_create p
                   \<lparr>collection = collectionSlug,
                    documentId = js_String (js_get doc ''id''),
                    action = (if operation = OpCreate then Create else Update),
                    userId = (case user req of None \<Rightarrow> None | Some u \<Rightarrow> user_id u),
                    userName = str_or (case user req of None \<Rightarrow> None | Some u \<Rightarrow> email u) ''System'',
                    timestamp = now,
                    changes = chs,
                    ip = getClientIp req,
                    userAgent = str_or (header req ''user-agent'') ''Unknown'',
                    version = next_version docs,
                    isSnapshot = isCriticalSnapshot doc originalDoc chs\<rparr> of
                   Inl e \<Rightarrow> Inl e
                 | Inr p' \<Rightarrow> Inr (p', Some (collectionSlug, js_String (js_get doc ''id''))))))"

text \<open>
  The hook that \<^verbatim>\<open>createAfterChangeHook(collectionSlug, excludeFields, config)\<close> returns,
  applied to \<^verbatim>\<open>{req, doc, operation, previousDoc}\<close>. Its result is what the promise
  settles to (\<open>Inr\<close> the returned document, \<open>Inl\<close> a rejection), the store afterwards
  and the scheduled clean-up.
\<close>

definition createAfterChangeHook ::
  "string \<Rightarrow> string list \<Rightarrow> AuditConfig \<Rightarrow> payload \<Rightarrow> int \<Rightarrow> request \<Rightarrow> jsrecord \<Rightarrow> operation
    \<Rightarrow> jsrecord option \<Rightarrow> (error + jsrecord) \<times> payload \<times> (string \<times> string) option" where
  "createAfterChangeHook collectionSlug excl config p now req doc operation previousDoc =
     (if collectionSlug = ''audit-logs'' then (Inr doc, p, None)
      else if (if operation = OpCreate then Create else Update) \<notin> set (trackActions config)
      then (Inr doc, p, None)
      else
        (case afterChange_try collectionSlug excl p now req doc operation previousDoc of
           Inr (p', task) \<Rightarrow> (Inr doc, p', task)
         | Inl e \<Rightarrow> (Inr doc, logger Err ''Failed to create audit entry: '' e p, None)))"

text \<open>
  The callback given to \<^verbatim>\<open>setImmediate\<close>: the clean-up of the document, run after the
  hook has returned.
\<close>

definition run_scheduled :: "AuditConfig \<Rightarrow> payload \<Rightarrow> int \<Rightarrow> (string \<times> string) option \<Rightarrow> payload" where
  "run_scheduled config p now task =
     (case task of None \<Rightarrow> p | Some (c, d) \<Rightarrow> fst (cleanupDocumentAuditLogs p now c d config))"

text \<open>The \<^verbatim>\<open>try\<close> block of the pre-deletion hook, and the hook.\<close>

definition beforeDelete_try ::
  "string \<Rightarrow> AuditConfig \<Rightarrow> payload \<Rightarrow> int \<Rightarrow> request \<Rightarrow> jsval \<Rightarrow> error + payload" where
  "beforeDelete_try collectionSlug config p now req ident =
     (case findByID p collectionSlug ident of
        Inl e \<Rightarrow> Inl e
      | Inr doc \<Rightarrow>
          (case payload_find p collectionSlug (js_String ident) 1 of
             Inl e \<Rightarrow> Inl e
           | Inr docs \<Rightarrow>
               payload_create p
                 \<lparr>collection = collectionSlug,
                  documentId = js_String ident,
                  action = Delete,
                  userId = (case user req of None \<Rightarrow> None | Some u \<Rightarrow> user_id u),
                  userName = str_or (case user req of None \<Rightarrow> None | Some u \<Rightarrow> email u) ''System'',
                  timestamp = now,
                  changes = calculateDiff (Some doc) None (excludeFields config) [],
                  ip = getClientIp req,
                  userAgent = str_or (header req ''user-agent'') ''Unknown'',
                  version = next_version docs,
                  isSnapshot = True\<rparr>))"

definition createBeforeDeleteHook ::
  "string \<Rightarrow> AuditConfig \<Rightarrow> payload \<Rightarrow> int \<Rightarrow> request \<Rightarrow> jsval \<Rightarrow> (error + unit) \<times> payload" where
  "createBeforeDeleteHook collectionSlug config p now req ident =
     (if collectionSlug = ''audit-logs'' then (Inr (), p)
      else if Delete \<notin> set (trackActions config) then (Inr (), p)
      else
        (case beforeDelete_try collectionSlug config p now req ident of
           Inr p' \<Rightarrow> (Inr (), p')
         | Inl e \<Rightarrow> (Inr (), logger Err ''Failed to create audit entry for deletion: '' e p)))"

text \<open>
  Sequential execution: one hook call at a time, each with the instant it runs at; the
  clean-up a post-mutation hook schedules runs before the next call.
\<close>

datatype event =
    AfterChange string "string list" request jsrecord operation "jsrecord option"
  | BeforeDelete string request jsval

definition step :: "AuditConfig \<Rightarrow> payload \<Rightarrow> event \<times> int \<Rightarrow> payload" where
  "step config p ev =
     (case ev of
        (AfterChange collectionSlug excl req doc operation previousDoc, now) \<Rightarrow>
          (case createAfterChangeHook collectionSlug excl config p now req doc operation previousDoc of
             (_, p', task) \<Rightarrow> run_scheduled config p' now task)
      | (BeforeDelete collectionSlug req ident, now) \<Rightarrow>
          snd (createBeforeDeleteHook collectionSlug config p now req ident))"

definition run :: "AuditConfig \<Rightarrow> payload \<Rightarrow> (event \<times> int) list \<Rightarrow> payload" where
  "run config p evs = foldl (step config) p evs"


section \<open>Example inputs\<close>

text \<open>
  The store of the repository's clean-up test: entries of one document of
  \<^verbatim>\<open>blog-posts\<close>, and the test's retention policy.
\<close>

definition mk_entry :: "nat \<Rightarrow> int \<Rightarrow> int \<Rightarrow> bool \<Rightarrow> audit_entry" where
  "mk_entry i v t s =
     \<lparr>collection = ''blog-posts'', documentId = ''test-doc-123'', action = Update,
      userId = None, userName = '''', timestamp = t, changes = [], ip = '''', userAgent = '''',
      version = v, isSnapshot = s, entry_id = i\<rparr>"

definition mk_payload :: "audit_entry list \<Rightarrow> payload" where
  "mk_payload es =
     \<lparr>audit_logs = es, next_id = Suc (length es), find_fails = (\<lambda>_ _. False),
      create_fails = (\<lambda>_. False), delete_fails = (\<lambda>_ _. False),
      findByID = (\<lambda>_ _. Inl (Error ''Not Found'')), logged = []\<rparr>"

definition testConfig :: AuditConfig where
  "testConfig = \<lparr>excludeFields = [], excludeCollections = [],
     trackActions = [Create, Update, Delete],
     windowDays = Some 30, minVersions = Some 3, maxDays = Some 90\<rparr>"

definition day :: int where
  "day = 86400000"

text \<open>Ten updates, versions 10 down to 1, each one day older than the one before.\<close>

definition ten_daily :: payload where
  "ten_daily = mk_payload (map (\<lambda>i. mk_entry (Suc i) (10 - int i) (1000 * day - int i * day) False) [0 ..< 10])"

text \<open>Six entries over a hundred days, two of them snapshots.\<close>

definition window_store :: payload where
  "window_store = mk_payload
     [mk_entry 1 6 (1000 * day) False,
      mk_entry 2 5 (995 * day) False,
      mk_entry 3 4 (990 * day) True,
      mk_entry 4 3 (960 * day) False,
      mk_entry 5 2 (950 * day) True,
      mk_entry 6 1 (900 * day) False]"


text \<open>An empty store, a request of a signed-in user, and a blog post in three states.\<close>

definition test_request :: request where
  "test_request =
     \<lparr>user = Some \<lparr>user_id = Some 1, email = Some ''test@example.com''\<rparr>,
      headers = Some [(''user-agent'', ''test-agent'')],
      connection_remoteAddress = Some ''127.0.0.1'', socket_remoteAddress = None,
      auditContext = None\<rparr>"

definition post_v1 :: jsrecord where
  "post_v1 = [(''id'', JNum 7), (''title'', JStr ''Original Title''), (''status'', JStr ''draft'')]"

definition post_v2 :: jsrecord where
  "post_v2 = [(''id'', JNum 7), (''title'', JStr ''Updated Title''), (''status'', JStr ''draft'')]"

definition empty_store :: payload where
  "empty_store = (mk_payload [])\<lparr>findByID :=
     (\<lambda>c i. if c = ''blog-posts'' \<and> i = JNum 7 then Inr post_v2 else Inl (Error ''Not Found''))\<rparr>"

definition bare_doc :: jsrecord where
  "bare_doc = [(''id'', JNum 7), (''createdAt'', JStr ''2025-01-01''), (''updatedAt'', JStr ''2025-01-01'')]"

definition three_events :: "(event \<times> int) list" where
  "three_events =
     [(AfterChange ''blog-posts'' [] test_request post_v1 OpCreate None, 1000 * day),
      (AfterChange ''blog-posts'' [] test_request post_v2 OpUpdate (Some post_v1), 1001 * day),
      (BeforeDelete ''blog-posts'' test_request (JNum 7), 1002 * day)]"

text \<open>The empty store with an insert that always throws.\<close>

definition failing_store :: payload where
  "failing_store = empty_store\<lparr>create_fails := (\<lambda>_. True)\<rparr>"

text \<open>A document with a field that holds \<^verbatim>\<open>NaN\<close>.\<close>

definition nan_doc :: jsrecord where
  "nan_doc = [(''x'', JNaN)]"



section \<open>Auxiliary notions for the proofs\<close>

text \<open>
  The entries of one (collection, document) pair in the order of their insertion, the
  version the specification expects for the next entry of the pair (one more than the
  highest stored version, 1 when there is none), and the condition on the versions of a
  store: within a pair they are positive and grow strictly with the insertion order.
\<close>

definition entries_of :: "audit_entry list \<Rightarrow> string \<Rightarrow> string \<Rightarrow> audit_entry list" where
  "entries_of logs c d = filter (\<lambda>e. collection e = c \<and> documentId e = d) logs"

definition expected_version :: "audit_entry list \<Rightarrow> string \<Rightarrow> string \<Rightarrow> int" where
  "expected_version logs c d =
     (if entries_of logs c d = [] then 1 else Max (version ` set (entries_of logs c d)) + 1)"


text \<open>
  The entries of the fetched list with their ranks, and the condition under which the
  classification loop marks the entry at a rank for deletion.
\<close>

definition ranked :: "nat \<Rightarrow> audit_entry list \<Rightarrow> (nat \<times> audit_entry) list" where
  "ranked i docs = zip [i ..< i + length docs] docs"

definition marked :: "AuditConfig \<Rightarrow> int \<Rightarrow> int \<Rightarrow> nat \<times> audit_entry \<Rightarrow> bool" where
  "marked cfg mc wc = (\<lambda>(i, e).
     \<not> isSnapshot e \<and> \<not> int i < or_default (minVersions cfg) 10 \<and> (timestamp e < mc \<or> timestamp e < wc))"



fun clean :: "jsval \<Rightarrow> bool" where
  "clean (JObj r obj) \<longleftrightarrow>
     distinct (map fst obj) \<and> (\<forall>kv \<in> set obj. snd kv \<noteq> JUndefined \<and> clean (snd kv))"
| "clean (JArr r xs) \<longleftrightarrow> (\<forall>x \<in> set xs. clean x)"
| "clean v \<longleftrightarrow> True"

fun strip_reserved :: "jsval \<Rightarrow> jsval" where
  "strip_reserved (JObj r obj) =
     JObj r (map (\<lambda>kv. (fst kv, strip_reserved (snd kv))) (filter (\<lambda>kv. \<not> reserved (fst kv)) obj))"
| "strip_reserved (JArr r xs) = JArr r (map strip_reserved xs)"
| "strip_reserved v = v"

definition plain_key :: "string \<Rightarrow> bool" where
  "plain_key k \<longleftrightarrow> CHR ''.'' \<notin> set k \<and> CHR ''['' \<notin> set k"

fun plain_keys :: "jsval \<Rightarrow> bool" where
  "plain_keys (JObj r obj) \<longleftrightarrow> (\<forall>kv \<in> set obj. plain_key (fst kv) \<and> plain_keys (snd kv))"
| "plain_keys (JArr r xs) \<longleftrightarrow> (\<forall>x \<in> set xs. plain_keys x)"
| "plain_keys v \<longleftrightarrow> True"

fun split_on :: "char \<Rightarrow> string \<Rightarrow> string list" where
  "split_on sep [] = [[]]"
| "split_on sep (ch # s) =
     (if ch = sep then [] # split_on sep s
      else (case split_on sep s of [] \<Rightarrow> [[ch]] | seg # segs \<Rightarrow> (ch # seg) # segs))"

definition path_segments :: "string \<Rightarrow> string list" where
  "path_segments p = map (takeWhile (\<lambda>ch. ch \<noteq> CHR ''['')) (split_on (CHR ''.'') p)"

text \<open>
  The body of the loops of \<^verbatim>\<open>calculateDiff\<close> and \<^verbatim>\<open>compareArrays\<close> for one key and
  for one index, as functions of the two values compared.
\<close>

definition leaf_change :: "string \<Rightarrow> jsval \<Rightarrow> jsval \<Rightarrow> string \<Rightarrow> FieldChange" where
  "leaf_change f ov nv p = \<lparr>field = f, oldValue = serializeValue ov, newValue = serializeValue nv, path = p\<rparr>"

definition diff_value :: "string list \<Rightarrow> string \<Rightarrow> jsval \<Rightarrow> jsval \<Rightarrow> string \<Rightarrow> FieldChange list" where
  "diff_value excl key ov nv cp =
     (if \<not> deepEqual ov nv then
        (if isPlainObject ov \<and> isPlainObject nv then
           calculateDiff (Some (fields_of ov)) (Some (fields_of nv)) excl cp
         else if isArray ov \<and> isArray nv then compareArrays (items_of ov) (items_of nv) cp excl
         else [leaf_change key ov nv cp])
      else [])"











section \<open>Retention: proofs\<close>

lemma logger_audit_logs: "audit_logs (logger l pre e p) = audit_logs p"
  by (cases e) (simp add: logger_def)

lemma ranked_Nil: "ranked i [] = []"
  by (simp add: ranked_def)

lemma ranked_Cons: "ranked i (e # docs) = (i, e) # ranked (Suc i) docs"
  by (simp add: ranked_def upt_rec)

lemma cleanup_loop_toDelete:
  "snd (cleanup_loop cfg mc wc i docs (r, del)) =
     del @ map (entry_id \<circ> snd) (filter (marked cfg mc wc) (ranked i docs))"
  by (induction docs arbitrary: i r del) (simp_all add: ranked_Nil ranked_Cons marked_def)

lemma cleanup_loop_deleted:
  "deletedCount (fst (cleanup_loop cfg mc wc i docs (r, del))) = deletedCount r"
  by (induction docs arbitrary: i r del) simp_all

lemma cleanup_loop_processed:
  "documentsProcessed (fst (cleanup_loop cfg mc wc i docs (r, del))) = documentsProcessed r"
  by (induction docs arbitrary: i r del) simp_all

lemma cleanup_loop_skipped:
  "skippedSnapshots (fst (cleanup_loop cfg mc wc i docs (r, del))) =
     skippedSnapshots r + length (filter isSnapshot docs)"
  by (induction docs arbitrary: i r del) simp_all

lemma cleanup_loop_kept:
  "keptCount (fst (cleanup_loop cfg mc wc i docs (r, del))) =
     keptCount r + length (filter (\<lambda>x. \<not> marked cfg mc wc x) (ranked i docs))"
  by (induction docs arbitrary: i r del) (simp_all add: ranked_Nil ranked_Cons marked_def)

lemma preview_loop_deleted:
  "deletedCount (preview_loop cfg mc wc i docs r) =
     deletedCount r + length (filter (marked cfg mc wc) (ranked i docs))"
  by (induction docs arbitrary: i r) (simp_all add: ranked_Nil ranked_Cons marked_def)

lemma preview_loop_processed:
  "documentsProcessed (preview_loop cfg mc wc i docs r) = documentsProcessed r"
  by (induction docs arbitrary: i r) simp_all

lemma preview_loop_skipped:
  "skippedSnapshots (preview_loop cfg mc wc i docs r) =
     skippedSnapshots r + length (filter isSnapshot docs)"
  by (induction docs arbitrary: i r) simp_all

lemma preview_loop_kept:
  "keptCount (preview_loop cfg mc wc i docs r) =
     keptCount r + length (filter (\<lambda>x. \<not> marked cfg mc wc x) (ranked i docs))"
  by (induction docs arbitrary: i r) (simp_all add: ranked_Nil ranked_Cons marked_def)

lemma payload_delete_Inr:
  "payload_delete p i = Inr p' \<Longrightarrow>
     audit_logs p' = filter (\<lambda>e. entry_id e \<noteq> i) (audit_logs p) \<and> delete_fails p' = delete_fails p"
  by (auto simp: payload_delete_def split: if_splits)

lemma delete_loop_subset:
  "delete_loop p ids r = (p', r', err) \<Longrightarrow> e \<in> set (audit_logs p) \<Longrightarrow> entry_id e \<notin> set ids
     \<Longrightarrow> e \<in> set (audit_logs p')"
proof (induction ids arbitrary: p r)
  case Nil
  then show ?case by simp
next
  case (Cons i ids)
  show ?case
  proof (cases "payload_delete p i")
    case (Inl x)
    with Cons.prems show ?thesis by simp
  next
    case (Inr q)
    with Cons.prems have "delete_loop q ids (r\<lparr>deletedCount := Suc (deletedCount r)\<rparr>) = (p', r', err)"
      by simp
    moreover have "e \<in> set (audit_logs q)"
      using payload_delete_Inr [OF Inr] Cons.prems by simp
    ultimately show ?thesis
      using Cons.IH Cons.prems by simp
  qed
qed

lemma delete_loop_all:
  "(\<And>s i. \<not> delete_fails p s i) \<Longrightarrow>
     \<exists>p'. delete_loop p ids r = (p', r\<lparr>deletedCount := deletedCount r + length ids\<rparr>, None)
       \<and> audit_logs p' = filter (\<lambda>e. entry_id e \<notin> set ids) (audit_logs p)"
proof (induction ids arbitrary: p r)
  case Nil
  then show ?case by simp
next
  case (Cons i ids)
  let ?q = "p\<lparr>audit_logs := filter (\<lambda>e. entry_id e \<noteq> i) (audit_logs p)\<rparr>"
  have del: "payload_delete p i = Inr ?q"
    using Cons.prems by (simp add: payload_delete_def)
  have "\<And>s j. \<not> delete_fails ?q s j"
    using Cons.prems by simp
  from Cons.IH [OF this, of "r\<lparr>deletedCount := Suc (deletedCount r)\<rparr>"]
  obtain p' where p': "delete_loop ?q ids (r\<lparr>deletedCount := Suc (deletedCount r)\<rparr>) =
        (p', r\<lparr>deletedCount := Suc (deletedCount r) + length ids\<rparr>, None)"
      "audit_logs p' = filter (\<lambda>e. entry_id e \<notin> set ids) (audit_logs ?q)"
    by auto
  show ?case
    using del p' by (auto intro!: filter_cong)
qed

lemma delete_loop_counts:
  "delete_loop p ids r = (p', r', err) \<Longrightarrow>
     keptCount r' = keptCount r \<and> skippedSnapshots r' = skippedSnapshots r
     \<and> documentsProcessed r' = documentsProcessed r
     \<and> deletedCount r' \<le> deletedCount r + length ids"
proof (induction ids arbitrary: p r)
  case Nil
  then show ?case by simp
next
  case (Cons i ids)
  show ?case
  proof (cases "payload_delete p i")
    case (Inl x)
    with Cons.prems show ?thesis by simp
  next
    case (Inr q)
    with Cons.prems have "delete_loop q ids (r\<lparr>deletedCount := Suc (deletedCount r)\<rparr>) = (p', r', err)"
      by simp
    from Cons.IH [OF this] show ?thesis by simp
  qed
qed

lemma payload_find_subset:
  "payload_find p c d n = Inr docs \<Longrightarrow> set docs \<subseteq> set (audit_logs p)"
  by (auto simp: payload_find_def split: if_splits dest: in_set_takeD)

lemma set_ranked: "(j, e) \<in> set (ranked i docs) \<Longrightarrow> e \<in> set docs"
  by (auto simp: ranked_def dest: set_zip_rightD)


lemma ranked_index: "(j, e) \<in> set (ranked 0 docs) \<Longrightarrow> j < length docs \<and> e = docs ! j"
  by (auto simp: ranked_def set_zip)

lemma marked_iff:
  "marked cfg mc wc (i, e) \<longleftrightarrow>
     \<not> isSnapshot e \<and> \<not> int i < or_default (minVersions cfg) 10 \<and> (timestamp e < mc \<or> timestamp e < wc)"
  by (simp add: marked_def)

lemma snapshots_le_unmarked:
  "length (filter isSnapshot docs) \<le> length (filter (\<lambda>x. \<not> marked cfg mc wc x) (ranked i docs))"
  by (induction docs arbitrary: i) (auto simp: ranked_Nil ranked_Cons marked_iff le_SucI)

lemma marked_plus_snapshots:
  "length (filter (marked cfg mc wc) (ranked i docs)) + length (filter isSnapshot docs) \<le> length docs"
proof (induction docs arbitrary: i)
  case Nil
  then show ?case by (simp add: ranked_Nil)
next
  case (Cons e docs)
  from Cons.IH [of "Suc i"] show ?case
    by (simp add: ranked_Cons marked_iff)
qed

lemma toDelete_not_snapshot:
  assumes "i \<in> set (snd (cleanup_loop cfg mc wc 0 docs (r, [])))"
  shows "\<exists>j. j < length docs \<and> entry_id (docs ! j) = i \<and> marked cfg mc wc (j, docs ! j)"
proof -
  from assms obtain j e where je: "(j, e) \<in> set (ranked 0 docs)" "marked cfg mc wc (j, e)" "entry_id e = i"
    by (auto simp: cleanup_loop_toDelete)
  from ranked_index [OF je(1)] je show ?thesis by auto
qed

lemma cleanup_unfold:
  assumes "payload_find p c d 1000 = Inr docs"
  shows "\<exists>p' r' err.
     delete_loop p (snd (cleanup_loop config (minus_days now (or_default (maxDays config) 365))
          (minus_days (timestamp (hd docs)) (or_default (windowDays config) 90)) 0 docs (result0, [])))
       (fst (cleanup_loop config (minus_days now (or_default (maxDays config) 365))
          (minus_days (timestamp (hd docs)) (or_default (windowDays config) 90)) 0 docs (result0, [])))
       = (p', r', err)
     \<and> audit_logs (fst (cleanupDocumentAuditLogs p now c d config)) = audit_logs p'
     \<and> snd (cleanupDocumentAuditLogs p now c d config) = r'"
proof (cases docs)
  case Nil
  then show ?thesis
    using assms by (simp add: cleanupDocumentAuditLogs_def)
next
  case (Cons e es)
  obtain r del where loop: "cleanup_loop config (minus_days now (or_default (maxDays config) 365))
          (minus_days (timestamp e) (or_default (windowDays config) 90)) 0 (e # es) (result0, []) = (r, del)"
    by (cases "cleanup_loop config (minus_days now (or_default (maxDays config) 365))
          (minus_days (timestamp e) (or_default (windowDays config) 90)) 0 (e # es) (result0, [])")
  obtain p' r' err where dl: "delete_loop p del r = (p', r', err)"
    by (cases "delete_loop p del r")
  show ?thesis
    using assms Cons loop dl
    by (cases err) (simp_all add: cleanupDocumentAuditLogs_def logger_audit_logs del: cleanup_loop.simps)
qed

lemma preview_unfold:
  assumes "payload_find p c d 1000 = Inr docs"
  shows "getCleanupPreview p now c d config =
     (p, preview_loop config (minus_days now (or_default (maxDays config) 365))
          (minus_days (timestamp (hd docs)) (or_default (windowDays config) 90)) 0 docs result0)"
  using assms by (cases docs) (simp_all add: getCleanupPreview_def)

lemma cleanup_find_fails:
  assumes "payload_find p c d 1000 = Inl e"
  shows "audit_logs (fst (cleanupDocumentAuditLogs p now c d config)) = audit_logs p
    \<and> snd (cleanupDocumentAuditLogs p now c d config) = result0"
  using assms by (simp add: cleanupDocumentAuditLogs_def logger_audit_logs)

lemma preview_find_fails:
  assumes "payload_find p c d 1000 = Inl e"
  shows "audit_logs (fst (getCleanupPreview p now c d config)) = audit_logs p
    \<and> snd (getCleanupPreview p now c d config) = result0"
  using assms by (simp add: getCleanupPreview_def logger_audit_logs)

lemma preview_store: "audit_logs (fst (getCleanupPreview p now c d config)) = audit_logs p"
  by (cases "payload_find p c d 1000") (simp_all add: preview_find_fails preview_unfold)

lemma snapshot_stays:
  assumes dist: "distinct (map entry_id (audit_logs p))"
    and e: "e \<in> set (audit_logs p)" "isSnapshot e"
  shows "e \<in> set (audit_logs (fst (cleanupDocumentAuditLogs p now c d config)))"
proof (cases "payload_find p c d 1000")
  case (Inl x)
  then show ?thesis using e by (simp add: cleanup_find_fails)
next
  case (Inr docs)
  from cleanup_unfold [OF Inr, of config now] obtain p' r' err where
    dl: "delete_loop p (snd (cleanup_loop config (minus_days now (or_default (maxDays config) 365))
          (minus_days (timestamp (hd docs)) (or_default (windowDays config) 90)) 0 docs (result0, [])))
       (fst (cleanup_loop config (minus_days now (or_default (maxDays config) 365))
          (minus_days (timestamp (hd docs)) (or_default (windowDays config) 90)) 0 docs (result0, [])))
       = (p', r', err)"
    and logs: "audit_logs (fst (cleanupDocumentAuditLogs p now c d config)) = audit_logs p'"
    by blast
  have "entry_id e \<notin> set (snd (cleanup_loop config (minus_days now (or_default (maxDays config) 365))
          (minus_days (timestamp (hd docs)) (or_default (windowDays config) 90)) 0 docs (result0, [])))"
  proof
    assume "entry_id e \<in> set (snd (cleanup_loop config (minus_days now (or_default (maxDays config) 365))
          (minus_days (timestamp (hd docs)) (or_default (windowDays config) 90)) 0 docs (result0, [])))"
    from toDelete_not_snapshot [OF this] obtain j where
      j: "j < length docs" "entry_id (docs ! j) = entry_id e" "\<not> isSnapshot (docs ! j)"
      by (auto simp: marked_iff)
    have "docs ! j \<in> set (audit_logs p)"
      using payload_find_subset [OF Inr] j(1) by auto
    with dist e(1) j(2) have "docs ! j = e"
      by (auto simp: distinct_map dest: inj_onD)
    with j(3) e(2) show False by simp
  qed
  from delete_loop_subset [OF dl e(1) this] logs show ?thesis by simp
qed

lemmas example_defs = mk_payload_def mk_entry_def testConfig_def day_def

lemmas cleanup_defs = cleanupDocumentAuditLogs_def getCleanupPreview_def payload_find_def
  payload_delete_def result0_def or_default_def minus_days_def

lemma payload_find_distinct:
  assumes "distinct (map entry_id (audit_logs p))" "payload_find p c d n = Inr docs"
  shows "distinct (map entry_id docs)"
proof -
  have "distinct docs"
    using assms by (auto simp: payload_find_def distinct_map split: if_splits)
  moreover have "inj_on entry_id (set docs)"
    using assms(1) payload_find_subset [OF assms(2)] by (auto simp: distinct_map intro: inj_on_subset)
  ultimately show ?thesis by (simp add: distinct_map)
qed

lemma window_find:
  "payload_find window_store ''blog-posts'' ''test-doc-123'' 1000 = Inr (audit_logs window_store)"
  by (simp add: example_defs window_store_def payload_find_def)

lemma window_result:
  "snd (cleanupDocumentAuditLogs window_store (1000 * day) ''blog-posts'' ''test-doc-123'' testConfig)
    = \<lparr>deletedCount = 2, keptCount = 4, skippedSnapshots = 2, documentsProcessed = 1\<rparr>"
  by (simp add: example_defs window_store_def cleanup_defs)

text \<open>
  Claim C1. Whatever the entries, the policy and the clock: an entry with
  \<open>isSnapshot\<close> is never put on the deletion list and is still in the store after
  \<^verbatim>\<open>cleanupDocumentAuditLogs\<close>, and both the clean-up and the preview count every
  fetched snapshot as skipped and as kept, never as deleted. The cut-offs of the loop are
  arbitrary here, so neither the rank nor the age of the snapshot matters. The store's
  primary keys are distinct.
\<close>

theorem snapshots_survive_retention:
  assumes dist: "distinct (map entry_id (audit_logs p))"
  shows "(\<forall>e \<in> set (audit_logs p). isSnapshot e \<longrightarrow>
            e \<in> set (audit_logs (fst (cleanupDocumentAuditLogs p now c d config)))
          \<and> e \<in> set (audit_logs (fst (getCleanupPreview p now c d config))))
       \<and> (\<forall>docs. payload_find p c d 1000 = Inr docs \<longrightarrow>
            (\<forall>maxAgeCutoff windowCutoff. \<forall>e \<in> set docs. isSnapshot e \<longrightarrow>
               entry_id e \<notin> set (snd (cleanup_loop config maxAgeCutoff windowCutoff 0 docs (result0, []))))
          \<and> skippedSnapshots (snd (cleanupDocumentAuditLogs p now c d config)) = length (filter isSnapshot docs)
          \<and> length (filter isSnapshot docs) \<le> keptCount (snd (cleanupDocumentAuditLogs p now c d config))
          \<and> deletedCount (snd (cleanupDocumentAuditLogs p now c d config)) + length (filter isSnapshot docs)
               \<le> length docs
          \<and> skippedSnapshots (snd (getCleanupPreview p now c d config)) = length (filter isSnapshot docs)
          \<and> length (filter isSnapshot docs) \<le> keptCount (snd (getCleanupPreview p now c d config))
          \<and> deletedCount (snd (getCleanupPreview p now c d config)) + length (filter isSnapshot docs)
               \<le> length docs)"
proof (intro conjI allI impI ballI)
  fix e assume "e \<in> set (audit_logs p)" "isSnapshot e"
  then show "e \<in> set (audit_logs (fst (cleanupDocumentAuditLogs p now c d config)))"
    using dist by (rule snapshot_stays [rotated])
next
  fix e assume "e \<in> set (audit_logs p)"
  then show "e \<in> set (audit_logs (fst (getCleanupPreview p now c d config)))"
    by (simp add: preview_store)
next
  fix docs mc wc e
  assume find: "payload_find p c d 1000 = Inr docs" and e: "e \<in> set docs" "isSnapshot e"
  show "entry_id e \<notin> set (snd (cleanup_loop config mc wc 0 docs (result0, [])))"
  proof
    assume "entry_id e \<in> set (snd (cleanup_loop config mc wc 0 docs (result0, [])))"
    from toDelete_not_snapshot [OF this] obtain j where
      j: "j < length docs" "entry_id (docs ! j) = entry_id e" "\<not> isSnapshot (docs ! j)"
      by (auto simp: marked_iff)
    have "inj_on entry_id (set docs)"
      using payload_find_distinct [OF dist find] by (simp add: distinct_map)
    with j(1,2) e(1) have "docs ! j = e"
      by (auto dest: inj_onD)
    with j(3) e(2) show False by simp
  qed
next
  fix docs
  assume find: "payload_find p c d 1000 = Inr docs"
  let ?mc = "minus_days now (or_default (maxDays config) 365)"
  let ?wc = "minus_days (timestamp (hd docs)) (or_default (windowDays config) 90)"
  let ?loop = "cleanup_loop config ?mc ?wc 0 docs (result0, [])"
  from cleanup_unfold [OF find, of config now] obtain p' r' err where
    dl: "delete_loop p (snd ?loop) (fst ?loop) = (p', r', err)"
    and res: "snd (cleanupDocumentAuditLogs p now c d config) = r'"
    by blast
  note cnt = delete_loop_counts [OF dl]
  show "skippedSnapshots (snd (cleanupDocumentAuditLogs p now c d config)) = length (filter isSnapshot docs)"
    using cnt res by (simp add: cleanup_loop_skipped result0_def)
  show "length (filter isSnapshot docs) \<le> keptCount (snd (cleanupDocumentAuditLogs p now c d config))"
    using cnt res snapshots_le_unmarked [of docs config ?mc ?wc 0]
    by (simp add: cleanup_loop_kept result0_def)
  show "deletedCount (snd (cleanupDocumentAuditLogs p now c d config)) + length (filter isSnapshot docs)
          \<le> length docs"
    using cnt res marked_plus_snapshots [of config ?mc ?wc 0 docs]
    by (simp add: cleanup_loop_deleted cleanup_loop_toDelete result0_def)
  show "skippedSnapshots (snd (getCleanupPreview p now c d config)) = length (filter isSnapshot docs)"
    by (simp add: preview_unfold [OF find] preview_loop_skipped result0_def)
  show "length (filter isSnapshot docs) \<le> keptCount (snd (getCleanupPreview p now c d config))"
    using snapshots_le_unmarked [of docs config ?mc ?wc 0]
    by (simp add: preview_unfold [OF find] preview_loop_kept result0_def)
  show "deletedCount (snd (getCleanupPreview p now c d config)) + length (filter isSnapshot docs)
          \<le> length docs"
    using marked_plus_snapshots [of config ?mc ?wc 0 docs]
    by (simp add: preview_unfold [OF find] preview_loop_deleted result0_def)
qed

text \<open>Claim C1, on the six-entry store: the snapshot of version 2 stays, two are skipped.\<close>

theorem snapshots_survive_retention_witness:
  "distinct (map entry_id (audit_logs window_store))
   \<and> isSnapshot (mk_entry 5 2 (950 * day) True)
   \<and> mk_entry 5 2 (950 * day) True \<in> set (audit_logs (fst (cleanupDocumentAuditLogs window_store (1000 * day)
            ''blog-posts'' ''test-doc-123'' testConfig)))
   \<and> skippedSnapshots (snd (cleanupDocumentAuditLogs window_store (1000 * day)
            ''blog-posts'' ''test-doc-123'' testConfig)) = 2
   \<and> skippedSnapshots (snd (getCleanupPreview window_store (1000 * day)
            ''blog-posts'' ''test-doc-123'' testConfig)) = 2"
proof -
  have d: "distinct (map entry_id (audit_logs window_store))"
    by (simp add: example_defs window_store_def)
  have m: "mk_entry 5 2 (950 * day) True \<in> set (audit_logs window_store)"
    "isSnapshot (mk_entry 5 2 (950 * day) True)"
    "length (filter isSnapshot (audit_logs window_store)) = 2"
    by (simp_all add: example_defs window_store_def)
  from snapshots_survive_retention [OF d, of "1000 * day" "''blog-posts''" "''test-doc-123''" testConfig]
    window_find d m
  show ?thesis by auto
qed

text \<open>
  Claim C2. On the ten daily entries with the policy \<open>minVersions = 3\<close>,
  \<open>windowDays = 30\<close>, \<open>maxDays = 90\<close> and the clock at the latest entry, the clean-up
  keeps all ten entries and deletes none: every entry lies inside the sliding window.
\<close>

theorem ten_daily_entries_all_kept:
  "cleanupDocumentAuditLogs ten_daily (1000 * day) ''blog-posts'' ''test-doc-123'' testConfig
     = (ten_daily, \<lparr>deletedCount = 0, keptCount = 10, skippedSnapshots = 0, documentsProcessed = 1\<rparr>)
   \<and> map version (audit_logs ten_daily) = [10, 9, 8, 7, 6, 5, 4, 3, 2, 1]
   \<and> map timestamp (audit_logs ten_daily) = map (\<lambda>k. (1000 - k) * day) [0, 1, 2, 3, 4, 5, 6, 7, 8, 9]
   \<and> list_all (\<lambda>e. \<not> isSnapshot e) (audit_logs ten_daily)"
  by (simp add: example_defs ten_daily_def cleanup_defs upt_rec)

text \<open>
  Claim C4. When no deletion fails, \<^verbatim>\<open>getCleanupPreview\<close> returns the very
  \<^verbatim>\<open>CleanupResult\<close> that \<^verbatim>\<open>cleanupDocumentAuditLogs\<close> returns on the same store,
  policy and clock (all four counters), and the preview leaves the audit store as it was.
\<close>

theorem preview_agrees_with_cleanup:
  assumes ok: "\<forall>s i. \<not> delete_fails p s i"
  shows "snd (getCleanupPreview p now c d config) = snd (cleanupDocumentAuditLogs p now c d config)
       \<and> audit_logs (fst (getCleanupPreview p now c d config)) = audit_logs p"
proof (cases "payload_find p c d 1000")
  case (Inl e)
  then show ?thesis
    by (simp add: cleanup_find_fails preview_find_fails)
next
  case (Inr docs)
  let ?mc = "minus_days now (or_default (maxDays config) 365)"
  let ?wc = "minus_days (timestamp (hd docs)) (or_default (windowDays config) 90)"
  let ?loop = "cleanup_loop config ?mc ?wc 0 docs (result0, [])"
  from cleanup_unfold [OF Inr, of config now] obtain p' r' err where
    dl: "delete_loop p (snd ?loop) (fst ?loop) = (p', r', err)"
    and res: "snd (cleanupDocumentAuditLogs p now c d config) = r'"
    by blast
  from delete_loop_all [of p "snd ?loop" "fst ?loop"] ok dl
  have r': "r' = (fst ?loop)\<lparr>deletedCount := deletedCount (fst ?loop) + length (snd ?loop)\<rparr>"
    by auto
  have "preview_loop config ?mc ?wc 0 docs result0 = r'"
    unfolding r'
    by (rule CleanupResult.equality)
       (simp_all add: preview_loop_deleted preview_loop_kept preview_loop_skipped
          preview_loop_processed cleanup_loop_deleted cleanup_loop_kept cleanup_loop_skipped
          cleanup_loop_processed cleanup_loop_toDelete)
  then show ?thesis
    by (simp add: preview_unfold [OF Inr] res preview_store)
qed

text \<open>Claim C4, on the six-entry store.\<close>

theorem preview_agrees_with_cleanup_witness:
  "(\<forall>s i. \<not> delete_fails window_store s i)
   \<and> snd (getCleanupPreview window_store (1000 * day) ''blog-posts'' ''test-doc-123'' testConfig)
     = snd (cleanupDocumentAuditLogs window_store (1000 * day) ''blog-posts'' ''test-doc-123'' testConfig)
   \<and> audit_logs (fst (getCleanupPreview window_store (1000 * day) ''blog-posts'' ''test-doc-123'' testConfig))
     = audit_logs window_store"
proof -
  have ok: "\<forall>s i. \<not> delete_fails window_store s i"
    by (simp add: example_defs window_store_def)
  from preview_agrees_with_cleanup [OF ok] ok show ?thesis by simp
qed




section \<open>Capture: proofs\<close>

lemmas diff_simps = calculateDiff.simps compareArrays.simps deepEqual.simps flattenObject.simps
  allKeys_def object_keys_def js_get_def strict_eq_def nullish_def isPlainObject_def isArray_def
  isDate_def fields_of_def items_of_def getTime_def serializeValue_def reserved_def child_path_def
  index_path_def Let_def

lemmas hook_defs = createAfterChangeHook_def afterChange_try_def createBeforeDeleteHook_def
  beforeDelete_try_def originalDoc_of_def payload_create_def next_version_def js_String_def
  isCriticalSnapshot_def getClientIp_def header_def str_or_def trim_def is_space_def
  run_scheduled_def step_def run_def logger_def audit_data.extend_def Let_def

lemma payload_find_one:
  assumes "payload_find p c d 1 = Inr docs"
  shows "next_version docs = expected_version (audit_logs p) c d"
proof -
  let ?xs = "entries_of (audit_logs p) c d"
  let ?ys = "sort_key (\<lambda>e. - version e) ?xs"
  from assms have docs: "docs = take 1 ?ys"
    by (auto simp: payload_find_def entries_of_def split: if_splits)
  show ?thesis
  proof (cases ?ys)
    case Nil
    then have "?xs = []"
      by (metis length_0_conv length_sort)
    with Nil docs show ?thesis
      by (simp add: next_version_def expected_version_def)
  next
    case (Cons y ys)
    have set: "set ?ys = set ?xs" by simp
    have "sorted (map (\<lambda>e. - version e) ?ys)"
      by (rule sorted_sort_key)
    with Cons have "\<forall>z \<in> set ys. version z \<le> version y"
      by auto
    with Cons set have le: "\<forall>z \<in> set ?xs. version z \<le> version y"
      by (metis insert_iff le_less list.simps(15))
    have mem: "y \<in> set ?xs"
      using Cons set by (metis list.set_intros(1))
    have "Max (version ` set ?xs) = version y"
      using le mem by (intro Max_eqI) auto
    moreover have "?xs \<noteq> []"
      using mem by auto
    ultimately show ?thesis
      using Cons docs by (simp add: next_version_def expected_version_def)
  qed
qed


lemma extend_fields:
  "collection (audit_data.extend data x) = collection data"
  "documentId (audit_data.extend data x) = documentId data"
  "action (audit_data.extend data x) = action data"
  "changes (audit_data.extend data x) = changes data"
  "version (audit_data.extend data x) = version data"
  "isSnapshot (audit_data.extend data x) = isSnapshot data"
  by (cases data; simp add: audit_data.extend_def)+













text \<open>A create, an update and a delete of one post get the versions 1, 2 and 3.\<close>

lemma three_events_run:
  "map (\<lambda>e. (action e, version e, isSnapshot e)) (audit_logs (run testConfig empty_store three_events))
     = [(Create, 1, True), (Update, 2, False), (Delete, 3, True)]"
  by (simp add: hook_defs diff_simps example_defs cleanup_defs three_events_def empty_store_def
     test_request_def post_v1_def post_v2_def show_nat.simps digit_def)


text \<open>
  Claim C9. Whatever the inputs and whichever calls of the storage interface throw (the
  fetch of the document, the look-up of the latest version, the insert of the entry),
  the post-mutation hook returns the document it was given and the pre-deletion hook
  returns normally; when the guarded block throws, the audit store is left as it was.
\<close>

theorem hooks_never_throw:
  "fst (createAfterChangeHook slug excl config p now req doc operation previousDoc) = Inr doc
   \<and> fst (createBeforeDeleteHook slug config p now req ident) = Inr ()
   \<and> (\<forall>e. afterChange_try slug excl p now req doc operation previousDoc = Inl e \<longrightarrow>
          audit_logs (fst (snd (createAfterChangeHook slug excl config p now req doc operation previousDoc)))
            = audit_logs p)
   \<and> (\<forall>e. beforeDelete_try slug config p now req ident = Inl e \<longrightarrow>
          audit_logs (snd (createBeforeDeleteHook slug config p now req ident)) = audit_logs p)"
  by (simp add: createAfterChangeHook_def createBeforeDeleteHook_def logger_audit_logs
      split: sum.splits prod.splits)

lemma failing_try:
  "afterChange_try ''blog-posts'' [] failing_store (1000 * day) test_request post_v1 OpCreate None
     = Inl (Error ''create failed'')"
  by (simp add: failing_store_def hook_defs diff_simps example_defs payload_find_def empty_store_def
      test_request_def post_v1_def show_nat.simps digit_def)

text \<open>Claim C9, with an insert that throws.\<close>

theorem hooks_never_throw_witness:
  "afterChange_try ''blog-posts'' [] failing_store (1000 * day) test_request post_v1 OpCreate None
     = Inl (Error ''create failed'')
   \<and> fst (createAfterChangeHook ''blog-posts'' [] testConfig failing_store (1000 * day) test_request
          post_v1 OpCreate None) = Inr post_v1
   \<and> audit_logs (fst (snd (createAfterChangeHook ''blog-posts'' [] testConfig failing_store (1000 * day)
          test_request post_v1 OpCreate None))) = audit_logs failing_store"
  using hooks_never_throw [of "''blog-posts''" "[]" testConfig failing_store "1000 * day" test_request
      post_v1 OpCreate None] failing_try
  by blast

text \<open>
  Claim C10. When the diff of a tracked create is empty and the store's calls succeed,
  the post-mutation hook still appends an entry with action \<open>Create\<close>, an empty list of
  changes and the next version of the pair; the same call as an update appends nothing.
\<close>

theorem create_with_empty_diff_is_recorded:
  assumes slug: "slug \<noteq> ''audit-logs''"
    and empty: "calculateDiff (originalDoc_of req slug previousDoc) (Some doc) excl [] = []"
    and find: "\<not> find_fails p slug (js_String (js_get doc ''id''))"
    and create: "\<forall>data. \<not> create_fails p data"
  shows "(Create \<in> set (trackActions config) \<longrightarrow>
           (\<exists>e. audit_logs (fst (snd (createAfterChangeHook slug excl config p now req doc OpCreate previousDoc)))
                  = audit_logs p @ [e]
               \<and> action e = Create \<and> changes e = [] \<and> collection e = slug
               \<and> documentId e = js_String (js_get doc ''id'')
               \<and> version e = expected_version (audit_logs p) slug (js_String (js_get doc ''id''))))
       \<and> audit_logs (fst (snd (createAfterChangeHook slug excl config p now req doc OpUpdate previousDoc)))
            = audit_logs p"
proof -
  let ?d = "js_String (js_get doc ''id'')"
  obtain docs where docs: "payload_find p slug ?d 1 = Inr docs"
    using find by (simp add: payload_find_def)
  note v = payload_find_one [OF docs]
  show ?thesis
    using slug empty docs v create
    by (simp add: createAfterChangeHook_def afterChange_try_def Let_def payload_create_def
        extend_fields)
qed

lemma bare_doc_diff: "calculateDiff (originalDoc_of test_request ''blog-posts'' None) (Some bare_doc) [] [] = []"
  by (simp add: diff_simps bare_doc_def originalDoc_of_def test_request_def)

text \<open>Claim C10, for a document that has only housekeeping fields.\<close>

theorem create_with_empty_diff_is_recorded_witness:
  "calculateDiff (originalDoc_of test_request ''blog-posts'' None) (Some bare_doc) [] [] = []
   \<and> (\<exists>e. audit_logs (fst (snd (createAfterChangeHook ''blog-posts'' [] testConfig empty_store (1000 * day)
              test_request bare_doc OpCreate None))) = audit_logs empty_store @ [e]
          \<and> action e = Create \<and> changes e = []
          \<and> version e = expected_version (audit_logs empty_store) ''blog-posts'' (js_String (js_get bare_doc ''id'')))
   \<and> expected_version (audit_logs empty_store) ''blog-posts'' (js_String (js_get bare_doc ''id'')) = 1"
proof -
  have a: "''blog-posts'' \<noteq> ''audit-logs''"
    "\<not> find_fails empty_store ''blog-posts'' (js_String (js_get bare_doc ''id''))"
    "\<forall>data. \<not> create_fails empty_store data"
    "Create \<in> set (trackActions testConfig)"
    "expected_version (audit_logs empty_store) ''blog-posts'' (js_String (js_get bare_doc ''id'')) = 1"
    by (simp_all add: empty_store_def mk_payload_def testConfig_def expected_version_def entries_of_def)
  from create_with_empty_diff_is_recorded [OF a(1) bare_doc_diff a(2,3), of testConfig "1000 * day"] a(4,5)
    bare_doc_diff
  show ?thesis by blast
qed

section \<open>The diff engine: proofs\<close>







lemma strict_eq_refl: "strict_eq a a \<longleftrightarrow> a \<noteq> JNaN"
  by (cases a) (auto simp: strict_eq_def)

lemma strict_eq_deepEqual: "strict_eq a b \<Longrightarrow> deepEqual a b"
  by (subst deepEqual.simps) simp

lemma deepEqual_refl: "deepEqual a a \<longleftrightarrow> a \<noteq> JNaN"
proof (cases "a = JNaN")
  case True
  then show ?thesis
    by (subst deepEqual.simps) (simp add: strict_eq_def nullish_def isDate_def isArray_def isPlainObject_def)
next
  case False
  then show ?thesis
    by (simp add: strict_eq_deepEqual strict_eq_refl)
qed



lemma js_get_in:
  "distinct (map fst obj) \<Longrightarrow> (k, v) \<in> set obj \<Longrightarrow> js_get obj k = v"
  by (simp add: js_get_def)

lemma js_get_absent: "k \<notin> set (object_keys obj) \<Longrightarrow> js_get obj k = JUndefined"
  by (simp add: js_get_def object_keys_def map_of_eq_None_iff [THEN iffD2])

lemma js_get_mem: "k \<in> set (object_keys obj) \<Longrightarrow> (k, js_get obj k) \<in> set obj"
  by (cases "map_of obj k") (auto simp: js_get_def object_keys_def map_of_eq_None_iff dest: map_of_SomeD)

lemma clean_get:
  assumes "clean (JObj r obj)"
  shows "clean (js_get obj k)" and "k \<in> set (object_keys obj) \<Longrightarrow> js_get obj k \<noteq> JUndefined"
proof -
  show "clean (js_get obj k)"
  proof (cases "k \<in> set (object_keys obj)")
    case True
    from js_get_mem [OF this] assms show ?thesis by auto
  next
    case False
    then show ?thesis by (simp add: js_get_absent)
  qed
  assume "k \<in> set (object_keys obj)"
  from js_get_mem [OF this] assms show "js_get obj k \<noteq> JUndefined" by auto
qed

lemma js_get_undefined_iff:
  "clean (JObj r obj) \<Longrightarrow> js_get obj k = JUndefined \<longleftrightarrow> k \<notin> set (object_keys obj)"
  using clean_get(2) js_get_absent by blast




lemma calculateDiff_Some:
  "calculateDiff (Some old) (Some new) excl p =
     concat (map (\<lambda>key. if key \<in> set excl then [] else if reserved key then []
                        else diff_value excl key (js_get old key) (js_get new key) (child_path p key))
       (allKeys old new))"
  by (subst calculateDiff.simps, simp, intro arg_cong [where f = concat] map_cong refl)
     (simp add: diff_value_def leaf_change_def Let_def)


lemma set_allKeys: "set (allKeys old new) = set (object_keys old) \<union> set (object_keys new)"
  by (auto simp: allKeys_def)




lemma strip_kind:
  "isPlainObject (strip_reserved v) = isPlainObject v"
  "isArray (strip_reserved v) = isArray v"
  "isDate (strip_reserved v) = isDate v"
  by (cases v; simp add: isPlainObject_def isArray_def isDate_def)+

lemma strict_eq_strip: "strict_eq (strip_reserved a) (strip_reserved b) = strict_eq a b"
  by (cases a; cases b) (auto simp: strict_eq_def)




lemma kind_simps [simp]:
  "isPlainObject (JObj r obj)" "\<not> isPlainObject (JArr r xs)" "\<not> isPlainObject JUndefined"
  "isArray (JArr r xs)" "\<not> isArray (JObj r obj)" "\<not> isArray JUndefined"
  "fields_of (JObj r obj) = obj" "items_of (JArr r xs) = xs"
  by (simp_all add: isPlainObject_def isArray_def fields_of_def items_of_def)
















text \<open>
  Where a property holds \<^verbatim>\<open>undefined\<close>, \<^verbatim>\<open>deepEqual\<close> depends on the order of its
  arguments, and so does the diff.
\<close>

lemma undefined_property_asymmetry:
  "calculateDiff (Some [(''x'', JObj 1 [(''a'', JUndefined)])]) (Some [(''x'', JObj 2 [(''b'', JNum 1)])]) [] [] = []
   \<and> calculateDiff (Some [(''x'', JObj 2 [(''b'', JNum 1)])]) (Some [(''x'', JObj 1 [(''a'', JUndefined)])]) [] []
       = [\<lparr>field = ''b'', oldValue = JNum 1, newValue = JNull, path = ''x.b''\<rparr>]"
  by (simp add: diff_simps)

text \<open>
  Claim C6. The diff of the document \<^verbatim>\<open>{x: NaN}\<close> with itself is not empty: it reports
  \<open>x\<close> as changed from \<^verbatim>\<open>NaN\<close> to \<^verbatim>\<open>NaN\<close>.
\<close>

theorem diff_with_itself_reports_nan:
  "calculateDiff (Some nan_doc) (Some nan_doc) [] []
     = [\<lparr>field = ''x'', oldValue = JNaN, newValue = JNaN, path = ''x''\<rparr>]"
  by (simp add: diff_simps nan_doc_def)

text \<open>
  The diff of a document with itself lists exactly its tracked top-level fields that
  hold \<^verbatim>\<open>NaN\<close>; it is empty when there is none.
\<close>

lemma diff_with_itself:
  "calculateDiff (Some X) (Some X) excl p =
     concat (map (\<lambda>key. if key \<in> set excl then [] else if reserved key then []
                        else if js_get X key = JNaN then [leaf_change key JNaN JNaN (child_path p key)] else [])
       (allKeys X X))"
  unfolding calculateDiff_Some
  by (intro arg_cong [where f = concat] map_cong refl)
     (auto simp: diff_value_def deepEqual_refl isPlainObject_def isArray_def)

lemma diff_with_itself_empty:
  assumes "\<forall>key \<in> set (object_keys X). key \<notin> set excl \<and> \<not> reserved key \<longrightarrow> js_get X key \<noteq> JNaN"
  shows "calculateDiff (Some X) (Some X) excl p = []"
  using assms unfolding diff_with_itself by (auto simp: set_allKeys)

subsection \<open>Paths of the changes\<close>


lemma split_on_nonempty [simp]: "split_on sep s \<noteq> []"
  by (induction s) (auto split: list.splits)


























lemma plain_keys_ref: "plain_keys (JObj r obj) = plain_keys (JObj r' obj)"
  by simp





text \<open>A property name with a dot is read back as two segments.\<close>

lemma dotted_key_segment:
  "calculateDiff (Some [(''a.id'', JNum 1)]) (Some [(''a.id'', JNum 2)]) [] []
     = [\<lparr>field = ''a.id'', oldValue = JNum 1, newValue = JNum 2, path = ''a.id''\<rparr>]
   \<and> path_segments ''a.id'' = [''a'', ''id'']"
  by (simp add: diff_simps path_segments_def)

end
